theory Spec2Isabelle
  imports Complex_Main "HOL-Library.Sublist"
begin

section \<open>Python strings\<close>

text \<open>
  A Python \<open>str\<close> is a sequence of Unicode code points, so a string is a list of code
  point numbers and \<open>length\<close> counts what \<open>len\<close> counts.  ASCII literals are written
  with \<open>asc\<close>; other literals are given by their code points.
\<close>

type_synonym ustring = "nat list"

definition asc :: "string \<Rightarrow> ustring" where
  "asc s = map of_char s"

text \<open>
  \<open>str.isspace\<close>, which is also the class \<open>\s\<close> of \<open>re\<close> on \<open>str\<close> patterns and the set
  removed by \<open>str.strip()\<close>: the characters of general category Zs or of bidirectional
  class WS, B or S.
\<close>

definition isspace :: "nat \<Rightarrow> bool" where
  "isspace c \<longleftrightarrow>
     (9 \<le> c \<and> c \<le> 13) \<or> (28 \<le> c \<and> c \<le> 32) \<or> c = 133 \<or> c = 160 \<or> c = 5760 \<or>
     (8192 \<le> c \<and> c \<le> 8202) \<or> c = 8232 \<or> c = 8233 \<or> c = 8239 \<or> c = 8287 \<or> c = 12288"

definition lstrip :: "ustring \<Rightarrow> ustring" where
  "lstrip s = dropWhile isspace s"

definition rstrip :: "ustring \<Rightarrow> ustring" where
  "rstrip s = rev (dropWhile isspace (rev s))"

definition strip :: "ustring \<Rightarrow> ustring" where
  "strip s = rstrip (lstrip s)"

text \<open>\<open>s.lstrip(chars)\<close>, \<open>s.rstrip(chars)\<close> and \<open>s.strip(chars)\<close> with an explicit character set.\<close>

definition lstrip_chars :: "ustring \<Rightarrow> ustring \<Rightarrow> ustring" where
  "lstrip_chars cs s = dropWhile (\<lambda>c. c \<in> set cs) s"

definition rstrip_chars :: "ustring \<Rightarrow> ustring \<Rightarrow> ustring" where
  "rstrip_chars cs s = rev (dropWhile (\<lambda>c. c \<in> set cs) (rev s))"

definition strip_chars :: "ustring \<Rightarrow> ustring \<Rightarrow> ustring" where
  "strip_chars cs s = rstrip_chars cs (lstrip_chars cs s)"

text \<open>\<open>s.startswith(p)\<close>.\<close>

fun startswith :: "ustring \<Rightarrow> ustring \<Rightarrow> bool" where
  "startswith s [] = True"
| "startswith [] (p # ps) = False"
| "startswith (c # cs) (p # ps) = (c = p \<and> startswith cs ps)"

text \<open>
  \<open>s.split(sep, 1)\<close> for a non-empty separator that occurs in \<open>s\<close>: the parts before and
  after the first occurrence; \<open>None\<close> when \<open>sep\<close> does not occur, so that \<open>sep in s\<close> is
  \<open>split_once sep s \<noteq> None\<close>.
\<close>

fun split_once :: "ustring \<Rightarrow> ustring \<Rightarrow> (ustring \<times> ustring) option" where
  "split_once sep [] = (if sep = [] then Some ([], []) else None)"
| "split_once sep (c # cs) =
     (if startswith (c # cs) sep then Some ([], drop (length sep) (c # cs))
      else (case split_once sep cs of
              None \<Rightarrow> None
            | Some (a, b) \<Rightarrow> Some (c # a, b)))"

definition contains :: "ustring \<Rightarrow> ustring \<Rightarrow> bool" where
  "contains s sub \<longleftrightarrow> split_once sub s \<noteq> None"

text \<open>\<open>xs[:n]\<close> for a Python integer \<open>n\<close>: a negative \<open>n\<close> counts from the end.\<close>

definition slice_to :: "int \<Rightarrow> 'a list \<Rightarrow> 'a list" where
  "slice_to n xs = (if 0 \<le> n then take (nat n) xs else take (nat (int (length xs) + n)) xs)"

text \<open>
  \<open>str.splitlines()\<close>: the line boundaries are LF, VT, FF, CR, FS, GS, RS, NEL, LS and
  PS; CR LF is one boundary; a final boundary opens no further line.
\<close>

definition is_linebreak :: "nat \<Rightarrow> bool" where
  "is_linebreak c \<longleftrightarrow>
     (10 \<le> c \<and> c \<le> 13) \<or> (28 \<le> c \<and> c \<le> 30) \<or> c = 133 \<or> c = 8232 \<or> c = 8233"

fun splitlines_from :: "ustring \<Rightarrow> ustring \<Rightarrow> ustring list" where
  "splitlines_from cur [] = (if cur = [] then [] else [cur])"
| "splitlines_from cur [c] = (if is_linebreak c then [cur] else [cur @ [c]])"
| "splitlines_from cur (c # d # cs) =
     (if c = 13 \<and> d = 10 then cur # splitlines_from [] cs
      else if is_linebreak c then cur # splitlines_from [] (d # cs)
      else splitlines_from (cur @ [c]) (d # cs))"

definition splitlines :: "ustring \<Rightarrow> ustring list" where
  "splitlines s = splitlines_from [] s"

section \<open>The Unicode database\<close>

text \<open>
  The pipeline calls into Python's Unicode tables: \<open>unicodedata.normalize("NFKC", s)\<close>,
  \<open>str.lower\<close>, the regex classes \<open>\d\<close> and \<open>\w\<close>, and case-insensitive matching.
  What these do on ASCII is fixed and is written out below; what they do beyond ASCII
  depends on the Unicode version of the interpreter and is a parameter of the model.
\<close>

record unicode_db =
  db_nfkc :: "ustring \<Rightarrow> ustring"
  db_lower :: "ustring \<Rightarrow> ustring"
  db_decimal :: "nat \<Rightarrow> bool"
  db_alnum :: "nat \<Rightarrow> bool"
  db_caseless :: "nat \<Rightarrow> nat \<Rightarrow> bool"

definition is_ascii :: "nat \<Rightarrow> bool" where
  "is_ascii c \<longleftrightarrow> c < 128"

definition ascii_lower :: "nat \<Rightarrow> nat" where
  "ascii_lower c = (if 65 \<le> c \<and> c \<le> 90 then c + 32 else c)"

text \<open>NFKC leaves every ASCII string as it is.\<close>

definition nfkc :: "unicode_db \<Rightarrow> ustring \<Rightarrow> ustring" where
  "nfkc U s = (if list_all is_ascii s then s else db_nfkc U s)"

definition lower :: "unicode_db \<Rightarrow> ustring \<Rightarrow> ustring" where
  "lower U s = (if list_all is_ascii s then map ascii_lower s else db_lower U s)"

text \<open>\<open>\d\<close>: a decimal digit.\<close>

definition is_digit :: "unicode_db \<Rightarrow> nat \<Rightarrow> bool" where
  "is_digit U c = (if is_ascii c then 48 \<le> c \<and> c \<le> 57 else db_decimal U c)"

text \<open>\<open>\w\<close>: alphanumeric or the underscore.\<close>

definition is_word :: "unicode_db \<Rightarrow> nat \<Rightarrow> bool" where
  "is_word U c =
     (if is_ascii c
      then (48 \<le> c \<and> c \<le> 57) \<or> (65 \<le> c \<and> c \<le> 90) \<or> (97 \<le> c \<and> c \<le> 122) \<or> c = 95
      else db_alnum U c)"

text \<open>
  Under \<open>re.IGNORECASE\<close> the pattern is compiled in lower case; \<open>ci_eq U c p\<close> says that
  the text character \<open>c\<close> matches the lower-case pattern character \<open>p\<close>.
\<close>

definition ci_eq :: "unicode_db \<Rightarrow> nat \<Rightarrow> nat \<Rightarrow> bool" where
  "ci_eq U c p = (if is_ascii c then ascii_lower c = p else db_caseless U c p)"

text \<open>A character class is a list of inclusive ranges of lower-case pattern characters.\<close>

definition in_class :: "unicode_db \<Rightarrow> (nat \<times> nat) list \<Rightarrow> nat \<Rightarrow> bool" where
  "in_class U rs c =
     (if is_ascii c then list_ex (\<lambda>(lo, hi). lo \<le> ascii_lower c \<and> ascii_lower c \<le> hi) rs
      else list_ex (\<lambda>(lo, hi). list_ex (db_caseless U c) [lo ..< Suc hi]) rs)"

section \<open>Regular expressions\<close>

text \<open>
  The patterns of the program are alternatives of sequences of three kinds of pieces:
  a word boundary \<open>\b\<close>, a literal character, and a character class repeated greedily
  at least \<open>n\<close> times (\<open>{n,}\<close>, \<open>+\<close> being \<open>{1,}\<close>).  \<open>re_match\<close> is the backtracking matcher
  of \<open>re\<close>: it returns the unconsumed rest of the text at the first success, trying the
  longest repetition first.  \<open>prev\<close> is the character before the current position.
\<close>

datatype piece = WordB | Lit nat | Cls "(nat \<times> nat) list" nat

definition word_opt :: "unicode_db \<Rightarrow> nat option \<Rightarrow> bool" where
  "word_opt U x = (case x of None \<Rightarrow> False | Some c \<Rightarrow> is_word U c)"

definition next_char :: "ustring \<Rightarrow> nat option" where
  "next_char s = (case s of [] \<Rightarrow> None | c # _ \<Rightarrow> Some c)"

fun re_match :: "unicode_db \<Rightarrow> piece list \<Rightarrow> nat option \<Rightarrow> ustring \<Rightarrow> ustring option" where
  "re_match U [] prev s = Some s"
| "re_match U (WordB # ps) prev s =
     (if word_opt U prev \<noteq> word_opt U (next_char s) then re_match U ps prev s else None)"
| "re_match U (Lit p # ps) prev [] = None"
| "re_match U (Lit p # ps) prev (c # cs) =
     (if ci_eq U c p then re_match U ps (Some c) cs else None)"
| "re_match U (Cls rs n # ps) prev [] = (if n = 0 then re_match U ps prev [] else None)"
| "re_match U (Cls rs n # ps) prev (c # cs) =
     (if in_class U rs c
      then (case re_match U (Cls rs (n - 1) # ps) (Some c) cs of
              Some r \<Rightarrow> Some r
            | None \<Rightarrow> if n = 0 then re_match U ps prev (c # cs) else None)
      else if n = 0 then re_match U ps prev (c # cs) else None)"

text \<open>The alternatives are tried in order at one position.\<close>

fun re_match_alts :: "unicode_db \<Rightarrow> piece list list \<Rightarrow> nat option \<Rightarrow> ustring \<Rightarrow> ustring option" where
  "re_match_alts U [] prev s = None"
| "re_match_alts U (a # as) prev s =
     (case re_match U a prev s of Some r \<Rightarrow> Some r | None \<Rightarrow> re_match_alts U as prev s)"

text \<open>\<open>rx.search(s)\<close>: the leftmost match, as the matched text (here always group 1).\<close>

fun re_search_from :: "unicode_db \<Rightarrow> piece list list \<Rightarrow> nat option \<Rightarrow> ustring \<Rightarrow> ustring option" where
  "re_search_from U alts prev [] =
     (case re_match_alts U alts prev [] of Some r \<Rightarrow> Some [] | None \<Rightarrow> None)"
| "re_search_from U alts prev (c # cs) =
     (case re_match_alts U alts prev (c # cs) of
        Some r \<Rightarrow> Some (take (length (c # cs) - length r) (c # cs))
      | None \<Rightarrow> re_search_from U alts (Some c) cs)"

definition re_search :: "unicode_db \<Rightarrow> piece list list \<Rightarrow> ustring \<Rightarrow> ustring option" where
  "re_search U alts s = re_search_from U alts None s"

text \<open>
  \<open>MODEL_RX = \b([A-Z]{2,}[A-Z0-9\-_/]{1,}|[A-Z0-9]{2,}\-[A-Z0-9\-_/]+)\b\<close>, compiled with
  \<open>re.IGNORECASE\<close>.  The group is followed by \<open>\b\<close> only, so the boundary is tried after
  each way of matching an alternative before the next alternative is tried.
\<close>

definition MODEL_RX :: "piece list list" where
  "MODEL_RX =
     [[WordB, Cls [(97, 122)] 2, Cls [(97, 122), (48, 57), (45, 45), (95, 95), (47, 47)] 1, WordB],
      [WordB, Cls [(97, 122), (48, 57)] 2, Lit 45,
       Cls [(97, 122), (48, 57), (45, 45), (95, 95), (47, 47)] 1, WordB]]"

text \<open>
  \<open>_UNIT_RX = (?i)\b(ghz|mhz|khz|gb|mb|tb|w|v|a|mm|cm|inch|gbit|gbe|pcie|usb|sata|nvme|ddr|
  rdimm|udimm|ecc|wifi|bt|poe)\b\<close>.
\<close>

definition UNIT_WORDS :: "ustring list" where
  "UNIT_WORDS = map asc
     [''ghz'', ''mhz'', ''khz'', ''gb'', ''mb'', ''tb'', ''w'', ''v'', ''a'', ''mm'', ''cm'',
      ''inch'', ''gbit'', ''gbe'', ''pcie'', ''usb'', ''sata'', ''nvme'', ''ddr'', ''rdimm'',
      ''udimm'', ''ecc'', ''wifi'', ''bt'', ''poe'']"

definition UNIT_RX :: "piece list list" where
  "UNIT_RX = map (\<lambda>w. WordB # map Lit w @ [WordB]) UNIT_WORDS"

text \<open>\<open>_HANGUL_RX = [\uac00-\ud7a3]\<close>, the precomposed Hangul syllables.\<close>

definition is_hangul :: "nat \<Rightarrow> bool" where
  "is_hangul c \<longleftrightarrow> 44032 \<le> c \<and> c \<le> 55203"

section \<open>The bullet normalizer\<close>

text \<open>
  \<open>re.sub(r"\s+", " ", s)\<close>: every maximal run of whitespace becomes one space.  The flag
  says that the previous character belonged to a run.
\<close>

fun collapse_from :: "bool \<Rightarrow> ustring \<Rightarrow> ustring" where
  "collapse_from b [] = []"
| "collapse_from b (c # cs) =
     (if isspace c then (if b then collapse_from True cs else 32 # collapse_from True cs)
      else c # collapse_from False cs)"

definition collapse_ws :: "ustring \<Rightarrow> ustring" where
  "collapse_ws s = collapse_from False s"

text \<open>
  \<open>re.sub(r"[...]+$", "", s)\<close> for a character set: the run of set characters at the end
  of the string is removed; \<open>$\<close> also matches before a final newline, so a run that ends
  there is removed too.
\<close>

definition sub_trailing :: "ustring \<Rightarrow> ustring \<Rightarrow> ustring" where
  "sub_trailing cs s =
     (if s \<noteq> [] \<and> last s = 10 then rstrip_chars cs (butlast s) @ [10] else rstrip_chars cs s)"

text \<open>The prefix correction: the first two \<open>if\<close>s of the loop body.\<close>

definition fix_prefix :: "ustring \<Rightarrow> ustring" where
  "fix_prefix s =
     (let s1 = (if startswith s [45] \<or> startswith s [8226] \<or> startswith s [42]
                then strip (lstrip_chars [8226, 42, 32] s) else s)
      in if startswith s1 [45, 32] then s1 else [45, 32] @ s1)"

text \<open>
  The clean-up between the prefix correction and the length cut: NFKC, whitespace runs,
  \<open>\<bullet>\<close> removed and en and em dashes turned into hyphens, then the two trailing trims
  (\<open>_PUNCT_TRIM_RX\<close> is \<open>["'\<cdot>\<bullet>*\<bullet>]+$\<close>, the second is \<open>[\<dots>]+$\<close> over the ideographic comma,
  the comma and the ellipsis).
\<close>

definition tidy :: "unicode_db \<Rightarrow> ustring \<Rightarrow> ustring" where
  "tidy U s =
     (let s1 = nfkc U s;
          s2 = collapse_ws s1;
          s3 = map (\<lambda>c. if c = 8211 \<or> c = 8212 then 45 else c) (filter (\<lambda>c. c \<noteq> 8226) s2);
          s4 = strip (sub_trailing [34, 39, 183, 8226, 42, 8226] s3)
      in strip (sub_trailing [12289, 44, 8230] s4))"

definition cut :: "int \<Rightarrow> ustring \<Rightarrow> ustring" where
  "cut max_len s = (if max_len < int (length s) then rstrip (slice_to max_len s) else s)"

text \<open>The admission test: a Hangul syllable, a digit, or a unit token.\<close>

definition admitted :: "unicode_db \<Rightarrow> ustring \<Rightarrow> bool" where
  "admitted U s \<longleftrightarrow>
     list_ex is_hangul s \<or> (list_ex (is_digit U) s \<or> re_search U UNIT_RX s \<noteq> None)"

text \<open>One item of the loop, up to the admission test; \<open>None\<close> is \<open>continue\<close>.\<close>

definition clean_item :: "unicode_db \<Rightarrow> int \<Rightarrow> ustring \<Rightarrow> ustring option" where
  "clean_item U max_len raw =
     (let s = strip raw
      in if s = [] then None
         else (let t = cut max_len (tidy U (fix_prefix s))
               in if admitted U t then Some t else None))"

text \<open>The loop of \<open>_normalize_korean_bullets\<close> with its two accumulators.\<close>

fun normalize_loop ::
  "unicode_db \<Rightarrow> int \<Rightarrow> ustring list \<Rightarrow> ustring list \<Rightarrow> ustring set \<Rightarrow> ustring list" where
  "normalize_loop U max_len [] out seen = out"
| "normalize_loop U max_len (raw # items) out seen =
     (case clean_item U max_len raw of
        None \<Rightarrow> normalize_loop U max_len items out seen
      | Some s \<Rightarrow>
          (let key = lower U s
           in if key \<in> seen then normalize_loop U max_len items out seen
              else normalize_loop U max_len items (out @ [s]) (insert key seen)))"

definition normalize_korean_bullets :: "unicode_db \<Rightarrow> ustring list \<Rightarrow> int \<Rightarrow> ustring list" where
  "normalize_korean_bullets U items max_len = normalize_loop U max_len items [] {}"

section \<open>The title resolver\<close>

text \<open>
  What \<open>guess_title_from_pdf\<close> reads of the PDF through PyMuPDF: the metadata entries
  \<open>title\<close> and \<open>subject\<close> (\<open>None\<close> when absent or empty), and per page the spans of its
  text dictionary as pairs of font size and text, flattened over blocks and lines
  (\<open>None\<close> when reading them raises).  The document itself is \<open>None\<close> when \<open>fitz.open\<close>
  raises.  Font sizes are modelled as rationals.
\<close>

record pdf_doc =
  meta_title :: "ustring option"
  meta_subject :: "ustring option"
  page_spans :: "(rat \<times> ustring) list list option"

definition PLACEHOLDER :: ustring where
  "PLACEHOLDER = [51228, 54408, 47749]"

definition or_empty :: "ustring option \<Rightarrow> ustring" where
  "or_empty x = (case x of None \<Rightarrow> [] | Some s \<Rightarrow> s)"

text \<open>The first \<open>try\<close> block: the loop over \<open>("title", "subject")\<close>.\<close>

fun title_from_meta :: "unicode_db \<Rightarrow> ustring option list \<Rightarrow> ustring option" where
  "title_from_meta U [] = None"
| "title_from_meta U (x # xs) =
     (let v = strip (or_empty x)
      in if v \<noteq> [] \<and> 2 \<le> length v \<and> length v \<le> 100
         then Some (strip (case re_search U MODEL_RX v of Some m \<Rightarrow> m | None \<Rightarrow> v))
         else title_from_meta U xs)"

text \<open>The second \<open>try\<close> block: the spans of the first two pages with size at least 8.\<close>

definition collect_tops :: "(rat \<times> ustring) list list \<Rightarrow> (rat \<times> ustring) list" where
  "collect_tops pages =
     filter (\<lambda>(size, txt). txt \<noteq> [] \<and> 8 \<le> size)
       (map (\<lambda>(size, txt). (size, strip txt)) (concat (take 2 pages)))"

fun first_model :: "unicode_db \<Rightarrow> ustring list \<Rightarrow> ustring option" where
  "first_model U [] = None"
| "first_model U (t # ts) =
     (case re_search U MODEL_RX t of Some m \<Rightarrow> Some (strip m) | None \<Rightarrow> first_model U ts)"

text \<open>\<open>tops.sort(key=lambda x: x[0], reverse=True)\<close> is stable, as \<open>sort_key\<close> is.\<close>

definition title_from_spans :: "unicode_db \<Rightarrow> (rat \<times> ustring) list list \<Rightarrow> ustring option" where
  "title_from_spans U pages =
     (let tops = sort_key (\<lambda>x. - fst x) (collect_tops pages)
      in case tops of
           [] \<Rightarrow> None
         | t0 # _ \<Rightarrow>
             (case first_model U (map snd (take 50 tops)) of
                Some m \<Rightarrow> Some m
              | None \<Rightarrow> Some (take 80 (snd t0))))"

fun first_line :: "ustring list \<Rightarrow> ustring option" where
  "first_line [] = None"
| "first_line (line # lines) =
     (let s = strip line in if s \<noteq> [] then Some (take 80 s) else first_line lines)"

text \<open>The two \<open>try\<close> blocks; any exception inside one of them ends in \<open>pass\<close>.\<close>

definition meta_stage :: "unicode_db \<Rightarrow> pdf_doc option \<Rightarrow> ustring option" where
  "meta_stage U pdf =
     (case pdf of
        None \<Rightarrow> None
      | Some doc \<Rightarrow> title_from_meta U [meta_title doc, meta_subject doc])"

definition span_stage :: "unicode_db \<Rightarrow> pdf_doc option \<Rightarrow> ustring option" where
  "span_stage U pdf =
     (case pdf of
        None \<Rightarrow> None
      | Some doc \<Rightarrow>
          (case page_spans doc of
             None \<Rightarrow> None
           | Some pages \<Rightarrow> title_from_spans U pages))"

definition guess_title_from_pdf :: "unicode_db \<Rightarrow> pdf_doc option \<Rightarrow> ustring \<Rightarrow> ustring" where
  "guess_title_from_pdf U pdf text =
     (case meta_stage U pdf of
        Some name \<Rightarrow> name
      | None \<Rightarrow>
     (case span_stage U pdf of
        Some name \<Rightarrow> name
      | None \<Rightarrow>
     (case re_search U MODEL_RX text of
        Some m \<Rightarrow> take 80 m
      | None \<Rightarrow>
     (case first_line (splitlines text) of
        Some s \<Rightarrow> s
      | None \<Rightarrow> PLACEHOLDER))))"

section \<open>Harvesting key/value pairs and bullets\<close>

definition kv_split :: "ustring \<Rightarrow> (ustring \<times> ustring) option" where
  "kv_split s =
     (case split_once [58] s of
        Some p \<Rightarrow> Some p
      | None \<Rightarrow> split_once [32, 45, 32] s)"

fun kv_loop ::
  "int \<Rightarrow> ustring list \<Rightarrow> (ustring \<times> ustring) list \<Rightarrow> (ustring \<times> ustring) list" where
  "kv_loop max_items [] out = out"
| "kv_loop max_items (line # lines) out =
     (let s = strip line
      in if s = [] \<or> 300 < length s then kv_loop max_items lines out
         else (case kv_split s of
                 None \<Rightarrow> kv_loop max_items lines out
               | Some (k0, v0) \<Rightarrow>
                   (let k = strip k0; v = strip v0;
                        out' = (if 1 \<le> length k \<and> length k \<le> 60 \<and> v \<noteq> []
                                then out @ [(k, v)] else out)
                    in if max_items \<le> int (length out') then out'
                       else kv_loop max_items lines out')))"

definition extract_kv_candidates :: "ustring \<Rightarrow> int \<Rightarrow> (ustring \<times> ustring) list" where
  "extract_kv_candidates text max_items = kv_loop max_items (splitlines text) []"

definition BULLET_MARKERS :: "nat list" where
  "BULLET_MARKERS = [8226, 9679, 45, 9642, 8227, 8211, 8212, 183, 42]"

fun bullet_loop :: "int \<Rightarrow> ustring list \<Rightarrow> ustring list \<Rightarrow> ustring list" where
  "bullet_loop max_items [] feats = feats"
| "bullet_loop max_items (line # lines) feats =
     (let s = strip line
      in if s = [] then bullet_loop max_items lines feats
         else (let feats' =
                 (if hd s \<in> set BULLET_MARKERS \<or>
                     list_ex (\<lambda>m. startswith s [m, 32]) BULLET_MARKERS
                  then (let s2 = strip_chars [32, 45, 8211, 8212, 183, 58, 42]
                                   (lstrip_chars BULLET_MARKERS s)
                        in if s2 \<noteq> [] then feats @ [s2] else feats)
                  else feats)
               in if max_items \<le> int (length feats') then feats'
                  else bullet_loop max_items lines feats'))"

definition extract_bullets :: "ustring \<Rightarrow> int \<Rightarrow> ustring list" where
  "extract_bullets text max_items = bullet_loop max_items (splitlines text) []"

section \<open>Categories\<close>

definition REQUIRED_KEYS :: "ustring list" where
  "REQUIRED_KEYS = map asc
     [''CPU'', ''GPU'', ''Memory'', ''Storage'', ''Power'', ''I/O'', ''LAN'',
      ''Dimensions'', ''Operating Temperature'']"

definition KEY_ALIASES :: "(ustring \<times> ustring list) list" where
  "KEY_ALIASES =
     [(asc ''CPU'',
       [asc ''CPU'', asc ''Processor'', [54532, 47196, 49464, 49436]]),
      (asc ''GPU'',
       [asc ''GPU'', asc ''Graphics'', [44536, 47000, 54589], asc ''VGA'']),
      (asc ''Memory'',
       [asc ''Memory'', asc ''RAM'', [47700, 47784, 47532], asc ''DRAM'', asc ''DDR'',
        asc ''RDIMM'', asc ''UDIMM'', asc ''ECC'']),
      (asc ''Storage'',
       [asc ''Storage'', [49828, 53664, 47532, 51648], asc ''SSD'', asc ''HDD'', asc ''NVMe'',
        asc ''SATA'', asc ''M.2'', asc ''U.2'']),
      (asc ''Power'',
       [asc ''Power'', asc ''PSU'', [51204, 50896], asc ''AC'', asc ''DC'', asc ''Adapter'',
        [50612, 45841, 53552], [51204, 47141], [51077, 47141]]),
      (asc ''I/O'',
       [asc ''I/O'', asc ''IO'', asc ''Interface'', [51077, 52636, 47141], [54252, 53944],
        asc ''USB'', asc ''PCIe'', asc ''HDMI'', asc ''DP'', asc ''VGA'', asc ''COM'',
        asc ''RS-232'', asc ''RS-485'']),
      (asc ''LAN'',
       [asc ''LAN'', asc ''Ethernet'', asc ''GbE'', asc ''10GbE'', asc ''2.5GbE'', asc ''RJ-45'',
        [45348, 53944, 50892, 53356]]),
      (asc ''Dimensions'',
       [asc ''Dimensions'', [53356, 44592], [44508, 44201], [50808, 54805], [52824, 49688],
        asc ''Size'', asc ''Form Factor'', asc ''W x D x H'', asc ''WxDxH'', asc ''mm'',
        asc ''cm'', asc ''inch'']),
      (asc ''Operating Temperature'',
       [asc ''Operating Temperature'', asc ''Operating Temp'',
        [46041, 51089, 32, 50728, 46020], [51089, 46041, 32, 50728, 46020], [50728, 46020],
        asc ''Temperature range'', asc ''Operating range''])]"

text \<open>\<open>KEY_ALIASES.get(alias_key, [alias_key])\<close>.\<close>

definition aliases_of :: "ustring \<Rightarrow> ustring list" where
  "aliases_of alias_key =
     (case map_of KEY_ALIASES alias_key of None \<Rightarrow> [alias_key] | Some toks \<Rightarrow> toks)"

definition matches_key :: "unicode_db \<Rightarrow> ustring \<Rightarrow> ustring \<Rightarrow> ustring \<Rightarrow> bool" where
  "matches_key U alias_key k v =
     (let kk = lower U k; vv = lower U v
      in list_ex (\<lambda>tok. let t = lower U tok in contains kk t \<or> contains vv t)
           (aliases_of alias_key))"

section \<open>The field assembler\<close>

record fields =
  r_name :: ustring
  r_desc :: ustring
  r_summary :: ustring
  r_feats :: "ustring list"

text \<open>\<open>_truncate(s, n) = (s or "").strip().replace("\n", " ")[:max(0, n)]\<close>.\<close>

definition truncate :: "ustring \<Rightarrow> int \<Rightarrow> ustring" where
  "truncate s n = slice_to (max 0 n) (map (\<lambda>c. if c = 10 then 32 else c) (strip s))"

text \<open>A loop either leaves the function with \<open>return\<close> or hands its state on.\<close>

datatype ('r, 's) flow = Return 'r | Next 's

text \<open>\<open>f"- {key}: {v}"\<close>.\<close>

definition bullet :: "ustring \<Rightarrow> ustring \<Rightarrow> ustring" where
  "bullet key v = [45, 32] @ key @ [58, 32] @ v"

text \<open>The inner loop of the category pass: the first unused pair matching \<open>key\<close>.\<close>

fun first_match ::
  "unicode_db \<Rightarrow> ustring \<Rightarrow> nat set \<Rightarrow> (nat \<times> ustring \<times> ustring) list \<Rightarrow> (nat \<times> ustring) option" where
  "first_match U key used [] = None"
| "first_match U key used ((i, k, v) # rest) =
     (if i \<in> used then first_match U key used rest
      else if matches_key U key k v then Some (i, v)
      else first_match U key used rest)"

fun category_pass ::
  "unicode_db \<Rightarrow> int \<Rightarrow> (nat \<times> ustring \<times> ustring) list \<Rightarrow> ustring list \<Rightarrow>
   ustring list \<Rightarrow> nat set \<Rightarrow> (ustring list, ustring list \<times> nat set) flow" where
  "category_pass U limit ikv [] feats used = Next (feats, used)"
| "category_pass U limit ikv (key # keys) feats used =
     (case (case first_match U key used ikv of
              None \<Rightarrow> (feats, used)
            | Some (i, v) \<Rightarrow> (feats @ [bullet key v], insert i used)) of
        (feats', used') \<Rightarrow>
          if limit \<le> int (length feats') then Return feats'
          else category_pass U limit ikv keys feats' used')"

fun generic_pass ::
  "int \<Rightarrow> nat set \<Rightarrow> (nat \<times> ustring \<times> ustring) list \<Rightarrow> ustring list \<Rightarrow>
   (ustring list, ustring list) flow" where
  "generic_pass limit used [] feats = Next feats"
| "generic_pass limit used ((i, k, v) # rest) feats =
     (if i \<in> used then generic_pass limit used rest feats
      else (let pair = bullet k v;
                feats' = (if pair \<in> set feats then feats else feats @ [pair])
            in if limit \<le> int (length feats') then Return feats'
               else generic_pass limit used rest feats'))"

fun bullets_pass :: "int \<Rightarrow> ustring list \<Rightarrow> ustring list \<Rightarrow> ustring list" where
  "bullets_pass limit [] feats = feats"
| "bullets_pass limit (b # bs) feats =
     (let bl = (if \<not> startswith b [45] then [45, 32] @ b else b);
          feats' = (if bl \<in> set feats then feats else feats @ [bl])
      in if limit \<le> int (length feats') then feats'
         else bullets_pass limit bs feats')"

text \<open>The feature list as the three passes leave it, before normalization.\<close>

definition assemble :: "unicode_db \<Rightarrow> ustring \<Rightarrow> int \<Rightarrow> ustring list" where
  "assemble U text limit =
     (let kv = extract_kv_candidates text 500;
          bullets = extract_bullets text 300;
          ikv = zip [0 ..< length kv] kv
      in case category_pass U limit ikv REQUIRED_KEYS [] {} of
           Return feats \<Rightarrow> feats
         | Next (feats, used) \<Rightarrow>
             (case generic_pass limit used ikv feats of
                Return feats' \<Rightarrow> feats'
              | Next feats' \<Rightarrow> bullets_pass limit bullets feats'))"

definition rules_build_fields ::
  "unicode_db \<Rightarrow> pdf_doc option \<Rightarrow> ustring \<Rightarrow> int \<Rightarrow> int \<Rightarrow> int \<Rightarrow> fields" where
  "rules_build_fields U pdf text desc_max summary_max limit =
     \<lparr>r_name = guess_title_from_pdf U pdf text,
      r_desc = truncate text desc_max,
      r_summary = truncate text summary_max,
      r_feats = slice_to limit (normalize_korean_bullets U (assemble U text limit) 64)\<rparr>"

section \<open>Shapes of normalized bullets\<close>

text \<open>Two spaces next to each other somewhere in the string.\<close>

fun has_double_space :: "ustring \<Rightarrow> bool" where
  "has_double_space [] = False"
| "has_double_space [c] = False"
| "has_double_space (c # d # cs) = ((c = 32 \<and> d = 32) \<or> has_double_space (d # cs))"

text \<open>The characters removed by the two trailing trims of the normalizer.\<close>

definition TRIMMED :: "nat list" where
  "TRIMMED = [34, 39, 183, 8226, 42, 12289, 44, 8230]"

section \<open>The assembled list as the specification words it\<close>

text \<open>
  Steps 5 and 6 of section 4.5 of the specification.  For each category in table order
  the candidates are scanned in original order, skipping the used ones; the first match
  gives the bullet of the category and is marked used.  So the pick of a category is the
  least index that is not taken and whose pair matches; \<open>picks_from\<close> says that a list
  holds, for each key in order, this pick (\<open>None\<close> where no pair is free and matches).
  The remaining candidates, in original order, then give a bullet each unless the same
  string is present already.
\<close>

definition free_match ::
  "unicode_db \<Rightarrow> (ustring \<times> ustring) list \<Rightarrow> ustring \<Rightarrow> nat set \<Rightarrow> nat \<Rightarrow> bool" where
  "free_match U kv key taken i \<longleftrightarrow>
     i < length kv \<and> i \<notin> taken \<and> matches_key U key (fst (kv ! i)) (snd (kv ! i))"

definition first_free_match ::
  "unicode_db \<Rightarrow> (ustring \<times> ustring) list \<Rightarrow> ustring \<Rightarrow> nat set \<Rightarrow> nat \<Rightarrow> bool" where
  "first_free_match U kv key taken i \<longleftrightarrow>
     free_match U kv key taken i \<and> (\<forall>j<i. \<not> free_match U kv key taken j)"

fun picks_from ::
  "unicode_db \<Rightarrow> (ustring \<times> ustring) list \<Rightarrow> ustring list \<Rightarrow> nat set \<Rightarrow> nat option list \<Rightarrow> bool" where
  "picks_from U kv [] taken ps = (ps = [])"
| "picks_from U kv (key # keys) taken [] = False"
| "picks_from U kv (key # keys) taken (None # ps) =
     ((\<forall>i. \<not> free_match U kv key taken i) \<and> picks_from U kv keys taken ps)"
| "picks_from U kv (key # keys) taken (Some i # ps) =
     (first_free_match U kv key taken i \<and> picks_from U kv keys (insert i taken) ps)"

text \<open>The bullets of the picks, \<open>"- {canonicalKey}: {value}"\<close>, in the order of the keys.\<close>

fun picked_bullets :: "(ustring \<times> ustring) list \<Rightarrow> ustring list \<Rightarrow> nat option list \<Rightarrow> ustring list" where
  "picked_bullets kv (key # keys) (None # ps) = picked_bullets kv keys ps"
| "picked_bullets kv (key # keys) (Some i # ps) =
     bullet key (snd (kv ! i)) # picked_bullets kv keys ps"
| "picked_bullets kv keys ps = []"


section \<open>The description as the specification words it\<close>

text \<open>
  Section 4.5 of the specification gives the description as
  \<open>firstNChars(collapseWhitespace(text), desc_max)\<close>.  These two definitions follow
  those words, to be compared with \<open>truncate\<close>: whitespace is collapsed as in step c of
  the normalizer (every run becomes one space), on the trimmed text.
\<close>

definition collapseWhitespace :: "ustring \<Rightarrow> ustring" where
  "collapseWhitespace s = collapse_ws (strip s)"

definition firstNChars :: "ustring \<Rightarrow> int \<Rightarrow> ustring" where
  "firstNChars s n = take (nat n) s"

section \<open>Tables for ASCII and Hangul texts\<close>

text \<open>
  On texts made of ASCII characters and precomposed Hangul syllables, NFKC changes
  nothing, only the ASCII letters have case, the syllables are alphanumeric, and no
  character beyond ASCII is a decimal digit or matches a pattern letter.  These tables
  are used to run the pipeline on such texts.
\<close>

definition hangul_db :: unicode_db where
  "hangul_db =
     \<lparr>db_nfkc = (\<lambda>s. s), db_lower = map ascii_lower, db_decimal = (\<lambda>c. False),
      db_alnum = is_hangul, db_caseless = (\<lambda>c p. False)\<rparr>"

section \<open>Three texts of fifty key/value lines\<close>




section \<open>Facts about the string primitives\<close>

lemma slice_to_nonneg: "0 \<le> n \<Longrightarrow> slice_to n xs = take (nat n) xs"
  by (simp add: slice_to_def)

lemma truncate_take: "truncate s n = take (nat n) (map (\<lambda>c. if c = 10 then 32 else c) (strip s))"
proof (cases "0 \<le> n")
  case True
  then show ?thesis by (simp add: truncate_def slice_to_def max_def)
next
  case False
  then show ?thesis by (simp add: truncate_def slice_to_def max_def)
qed

lemma lstrip_id: "s \<noteq> [] \<Longrightarrow> \<not> isspace (hd s) \<Longrightarrow> lstrip s = s"
  by (cases s) (simp_all add: lstrip_def)

lemma rstrip_id: "s \<noteq> [] \<Longrightarrow> \<not> isspace (last s) \<Longrightarrow> rstrip s = s"
  by (cases s rule: rev_cases) (simp_all add: rstrip_def)

lemma strip_id: "s \<noteq> [] \<Longrightarrow> \<not> isspace (hd s) \<Longrightarrow> \<not> isspace (last s) \<Longrightarrow> strip s = s"
  by (simp add: strip_def lstrip_id rstrip_id)

lemma take_prefix_mono: "a \<le> b \<Longrightarrow> prefix (take a xs) (take b xs)"
proof -
  assume "a \<le> b"
  then have "take a xs = take a (take b xs)" by (simp add: min_def)
  then show ?thesis by (metis take_is_prefix)
qed

section \<open>Description and summary\<close>

text \<open>
  Claim C10.  Description and summary are cut from the same cleaned text, so whenever
  \<open>desc_max \<le> summary_max\<close> the description is a prefix of the summary.
\<close>

theorem desc_prefix_of_summary:
  "desc_max \<le> summary_max \<Longrightarrow>
   prefix (r_desc (rules_build_fields U pdf text desc_max summary_max limit))
          (r_summary (rules_build_fields U pdf text desc_max summary_max limit))"
  by (simp add: rules_build_fields_def truncate_take take_prefix_mono nat_mono)

theorem desc_prefix_of_summary_witness:
  "prefix (r_desc (rules_build_fields hangul_db None (asc ''hello world'') 2 5 24))
          (r_summary (rules_build_fields hangul_db None (asc ''hello world'') 2 5 24))"
  using desc_prefix_of_summary [of 2 5 hangul_db None "asc ''hello world''" 24] by simp

text \<open>
  Claim C6, as the code has it.  The description is the first \<open>desc_max\<close> characters
  (none for a negative \<open>desc_max\<close>) of the text with the whitespace at its two ends removed
  and every line feed replaced by a space; runs of whitespace inside the text are kept.
  It contains no line feed.  With \<open>desc_max = 40\<close>, a text that neither starts nor ends
  with whitespace and has no line feed among its first 40 characters gives exactly its
  first 40 characters.
\<close>

theorem description_truncates_trimmed_text:
  "r_desc (rules_build_fields U pdf text desc_max summary_max limit) =
     take (nat desc_max) (map (\<lambda>c. if c = 10 then 32 else c) (strip text)) \<and>
   10 \<notin> set (r_desc (rules_build_fields U pdf text desc_max summary_max limit)) \<and>
   (text \<noteq> [] \<longrightarrow> \<not> isspace (hd text) \<longrightarrow> \<not> isspace (last text) \<longrightarrow>
    10 \<notin> set (take 40 text) \<longrightarrow>
    r_desc (rules_build_fields U pdf text 40 summary_max limit) = take 40 text)"
proof (intro conjI impI)
  show "r_desc (rules_build_fields U pdf text desc_max summary_max limit) =
     take (nat desc_max) (map (\<lambda>c. if c = 10 then 32 else c) (strip text))"
    by (simp add: rules_build_fields_def truncate_take)
  show "10 \<notin> set (r_desc (rules_build_fields U pdf text desc_max summary_max limit))"
    by (auto simp add: rules_build_fields_def truncate_take dest!: in_set_takeD)
next
  assume a: "text \<noteq> []" "\<not> isspace (hd text)" "\<not> isspace (last text)" "10 \<notin> set (take 40 text)"
  have "map (\<lambda>c. if c = 10 then 32 else c) (take 40 text) = take 40 text"
    using a(4) by (intro map_idI) auto
  then show "r_desc (rules_build_fields U pdf text 40 summary_max limit) = take 40 text"
    using a by (simp add: rules_build_fields_def truncate_take strip_id take_map)
qed

theorem description_truncates_trimmed_text_witness:
  "r_desc (rules_build_fields hangul_db None (replicate 100 97) 40 200 24) =
     take 40 (replicate 100 97)"
proof -
  have "replicate 100 (97::nat) \<noteq> []" "\<not> isspace (hd (replicate 100 97))"
    "\<not> isspace (last (replicate 100 97))" "10 \<notin> set (take 40 (replicate 100 (97::nat)))"
    by (simp_all add: isspace_def)
  with description_truncates_trimmed_text [of hangul_db None "replicate 100 97" 40 200 24]
  show ?thesis by blast
qed

text \<open>
  Claim C6 as stated fails twice.  The text \<open>a  b\<close> with two spaces keeps both spaces in
  the description, while its whitespace-collapsed form has one.  A text of 100
  characters that starts with a space, with no line feed in it, gives a description that
  starts at its second character.
\<close>

theorem description_collapse_counterexample:
  "r_desc (rules_build_fields hangul_db None (asc ''a  b'') 40 200 24) \<noteq>
     firstNChars (collapseWhitespace (asc ''a  b'')) 40 \<and>
   length (32 # replicate 99 (97::nat)) = 100 \<and>
   10 \<notin> set (take 40 (32 # replicate 99 (97::nat))) \<and>
   r_desc (rules_build_fields hangul_db None (32 # replicate 99 97) 40 200 24) \<noteq>
     take 40 (32 # replicate 99 97)"
proof (intro conjI)
  show "r_desc (rules_build_fields hangul_db None (asc ''a  b'') 40 200 24) \<noteq>
     firstNChars (collapseWhitespace (asc ''a  b'')) 40"
    by (simp add: rules_build_fields_def truncate_take firstNChars_def collapseWhitespace_def
        collapse_ws_def asc_def strip_def lstrip_def rstrip_def isspace_def)
  show "length (32 # replicate 99 (97::nat)) = 100" by simp
  show "10 \<notin> set (take 40 (32 # replicate 99 (97::nat)))" by simp
  have "lstrip (32 # replicate 99 97) = replicate 99 97"
    by (simp add: lstrip_def isspace_def lstrip_id [unfolded lstrip_def])
  moreover have "rstrip (replicate 99 97) = replicate 99 97"
    by (rule rstrip_id) (simp_all add: isspace_def)
  ultimately have "strip (32 # replicate 99 97) = replicate 99 97"
    by (simp add: strip_def)
  then have "r_desc (rules_build_fields hangul_db None (32 # replicate 99 97) 40 200 24) =
      replicate 40 97"
    by (simp add: rules_build_fields_def truncate_take)
  moreover have "hd (replicate 40 (97::nat)) \<noteq> hd (take 40 (32 # replicate 99 (97::nat)))"
    by simp
  ultimately show "r_desc (rules_build_fields hangul_db None (32 # replicate 99 97) 40 200 24) \<noteq>
     take 40 (32 # replicate 99 97)"
    by metis
qed

section \<open>The normalizer loop\<close>

lemma normalize_loop_length:
  "length (normalize_loop U m items out seen) \<le> length out + length items"
proof (induction items arbitrary: out seen)
  case Nil
  then show ?case by simp
next
  case (Cons raw items)
  show ?case
  proof (cases "clean_item U m raw")
    case None
    then show ?thesis using Cons.IH [of out seen] by simp
  next
    case (Some s)
    then show ?thesis
      using Cons.IH [of out seen] Cons.IH [of "out @ [s]" "insert (lower U s) seen"]
      by (simp add: Let_def)
  qed
qed

lemma normalize_length: "length (normalize_korean_bullets U items m) \<le> length items"
  using normalize_loop_length [of U m items "[]" "{}"] by (simp add: normalize_korean_bullets_def)

lemma normalize_loop_set:
  "set (normalize_loop U m items out seen) \<subseteq>
     set out \<union> {s. \<exists>raw \<in> set items. clean_item U m raw = Some s}"
proof (induction items arbitrary: out seen)
  case Nil
  then show ?case by simp
next
  case (Cons raw items)
  show ?case
  proof (cases "clean_item U m raw")
    case None
    then show ?thesis using Cons.IH [of out seen] by auto
  next
    case (Some s)
    then show ?thesis
      using Cons.IH [of out seen] Cons.IH [of "out @ [s]" "insert (lower U s) seen"]
      by (auto simp add: Let_def)
  qed
qed

lemma normalize_loop_distinct:
  "seen = lower U ` set out \<Longrightarrow> distinct (map (lower U) out) \<Longrightarrow>
   distinct (map (lower U) (normalize_loop U m items out seen))"
proof (induction items arbitrary: out seen)
  case Nil
  then show ?case by simp
next
  case (Cons raw items)
  show ?case
  proof (cases "clean_item U m raw")
    case None
    then show ?thesis using Cons by simp
  next
    case (Some s)
    show ?thesis
    proof (cases "lower U s \<in> seen")
      case True
      then show ?thesis using Some Cons by simp
    next
      case False
      have "distinct (map (lower U) (normalize_loop U m items (out @ [s]) (insert (lower U s) seen)))"
        using False Cons.prems by (intro Cons.IH) auto
      then show ?thesis using Some False by simp
    qed
  qed
qed

lemma normalize_distinct: "distinct (map (lower U) (normalize_korean_bullets U items m))"
  by (simp add: normalize_korean_bullets_def normalize_loop_distinct)

lemma normalize_set:
  "s \<in> set (normalize_korean_bullets U items m) \<Longrightarrow> \<exists>raw \<in> set items. clean_item U m raw = Some s"
  using normalize_loop_set [of U m items "[]" "{}"] by (auto simp add: normalize_korean_bullets_def)

section \<open>The cap\<close>

lemma slice_to_length: "int (length (slice_to n xs)) \<le> max 0 n \<or> (n < 0 \<and> 1 < length xs)"
  by (auto simp add: slice_to_def)

lemma slice_to_short: "n < 0 \<Longrightarrow> length xs \<le> 1 \<Longrightarrow> slice_to n xs = []"
  by (simp add: slice_to_def)

lemma category_pass_negative:
  "limit < 0 \<Longrightarrow> keys \<noteq> [] \<Longrightarrow>
   \<exists>feats. category_pass U limit ikv keys [] {} = Return feats \<and> length feats \<le> 1"
  by (cases keys) (auto split: option.splits)

lemma assemble_negative: "limit < 0 \<Longrightarrow> length (assemble U text limit) \<le> 1"
proof -
  assume a: "limit < 0"
  have "REQUIRED_KEYS \<noteq> []" by (simp add: REQUIRED_KEYS_def)
  from category_pass_negative [OF a this]
  obtain feats where "category_pass U limit
      (zip [0 ..< length (extract_kv_candidates text 500)] (extract_kv_candidates text 500))
      REQUIRED_KEYS [] {} = Return feats" "length feats \<le> 1"
    by blast
  then show ?thesis by (simp add: assemble_def Let_def)
qed

text \<open>
  Claim C1.  Whatever the text yields, the feature list has at most \<open>limit\<close> entries;
  for a negative \<open>limit\<close> it is empty.
\<close>

theorem features_within_cap:
  "int (length (r_feats (rules_build_fields U pdf text desc_max summary_max limit))) \<le> max 0 limit"
proof (cases "0 \<le> limit")
  case True
  then show ?thesis by (simp add: rules_build_fields_def slice_to_def)
next
  case False
  then have "limit < 0" by simp
  moreover have "length (normalize_korean_bullets U (assemble U text limit) 64) \<le> 1"
    using normalize_length [of U "assemble U text limit" 64] assemble_negative [of limit U "text"]
      \<open>limit < 0\<close>
    by linarith
  ultimately show ?thesis by (simp add: rules_build_fields_def slice_to_short)
qed

theorem features_within_cap_witness:
  "int (length (r_feats (rules_build_fields hangul_db None (asc ''CPU: 8 cores'') 40 200 24))) \<le> 24"
  using features_within_cap [of hangul_db None "asc ''CPU: 8 cores''" 40 200 24] by simp


section \<open>Bullets keep their prefix\<close>

lemma startswith_dash: "startswith s [45, 32] \<longleftrightarrow> (\<exists>t. s = 45 # 32 # t)"
proof (cases s)
  case Nil
  then show ?thesis by simp
next
  case (Cons a u)
  then show ?thesis by (cases u) auto
qed

lemma rev_dropWhile_rev_prefix: "prefix (rev (dropWhile P (rev s))) s"
proof (induction s rule: rev_induct)
  case Nil
  then show ?case by simp
next
  case (snoc x xs)
  then show ?case by (simp add: prefix_def) (metis append.assoc)
qed

lemma rstrip_prefix: "prefix (rstrip s) s"
  by (simp add: rstrip_def rev_dropWhile_rev_prefix)

lemma rstrip_chars_prefix: "prefix (rstrip_chars cs s) s"
  by (simp add: rstrip_chars_def rev_dropWhile_rev_prefix)

lemma sub_trailing_no_nl: "10 \<notin> set s \<Longrightarrow> sub_trailing cs s = rstrip_chars cs s"
proof -
  assume a: "10 \<notin> set s"
  have "\<not> (s \<noteq> [] \<and> last s = 10)"
  proof
    assume "s \<noteq> [] \<and> last s = 10"
    then have "10 \<in> set s" by (metis last_in_set)
    then show False using a by simp
  qed
  then show ?thesis unfolding sub_trailing_def by (rule if_not_P)
qed

lemma collapse_from_set: "set (collapse_from b s) \<subseteq> {c \<in> set s. \<not> isspace c} \<union> {32}"
  by (induction s arbitrary: b) auto

lemma collapse_ws_no_nl: "10 \<notin> set (collapse_ws s)"
proof
  assume "10 \<in> set (collapse_ws s)"
  then have "\<not> isspace 10" using collapse_from_set [of False s] by (auto simp add: collapse_ws_def)
  then show False by (simp add: isspace_def)
qed

lemma set_rstrip: "set (rstrip s) \<subseteq> set s"
  using rstrip_prefix [of s] by (rule set_mono_prefix)

lemma set_lstrip: "set (lstrip s) \<subseteq> set s"
  by (simp add: lstrip_def set_dropWhileD subsetI)

lemma set_strip: "set (strip s) \<subseteq> set s"
  using set_rstrip [of "lstrip s"] set_lstrip [of s] by (auto simp add: strip_def)

lemma set_rstrip_chars: "set (rstrip_chars cs s) \<subseteq> set s"
  using rstrip_chars_prefix [of cs s] by (rule set_mono_prefix)

text \<open>A string is dashed when it is a prefix of a string that starts with \<open>- \<close>.\<close>

lemma dashed_cases:
  "prefix s (45 # 32 # t) \<Longrightarrow> s = [] \<or> s = [45] \<or> startswith s [45, 32]"
proof (cases s)
  case Nil
  then show ?thesis by simp
next
  case (Cons a u)
  assume "prefix s (45 # 32 # t)"
  then show ?thesis using Cons by (cases u) auto
qed

lemma lstrip_dashed: "prefix s (45 # 32 # t) \<Longrightarrow> lstrip s = s"
  by (cases s) (auto simp add: lstrip_def isspace_def)

lemma strip_dashed: "prefix s (45 # 32 # t) \<Longrightarrow> prefix (strip s) (45 # 32 # t)"
  using rstrip_prefix [of s] by (auto simp add: strip_def lstrip_dashed)

lemma trim_dashed:
  assumes "prefix s (45 # 32 # t)" and "10 \<notin> set s"
  shows "prefix (strip (sub_trailing cs s)) (45 # 32 # t) \<and> 10 \<notin> set (strip (sub_trailing cs s))"
proof -
  have e: "sub_trailing cs s = rstrip_chars cs s" using assms(2) by (rule sub_trailing_no_nl)
  have "prefix (rstrip_chars cs s) (45 # 32 # t)"
    using rstrip_chars_prefix [of cs s] assms(1) by (rule prefix_order.trans)
  then have "prefix (strip (rstrip_chars cs s)) (45 # 32 # t)" by (rule strip_dashed)
  moreover have "10 \<notin> set (strip (rstrip_chars cs s))"
    using set_strip [of "rstrip_chars cs s"] set_rstrip_chars [of cs s] assms(2) by auto
  ultimately show ?thesis using e by simp
qed

lemma tidy_dashed:
  assumes "startswith (nfkc U s) [45, 32]"
  shows "\<exists>t. prefix (tidy U s) (45 # 32 # t)"
proof -
  obtain t where n: "nfkc U s = 45 # 32 # t" using assms by (auto simp add: startswith_dash)
  define s3 where "s3 = map (\<lambda>c. if c = 8211 \<or> c = 8212 then 45 else c)
      (filter (\<lambda>c. c \<noteq> 8226) (collapse_ws (nfkc U s)))"
  have c: "collapse_ws (nfkc U s) = 45 # 32 # collapse_from True t"
    by (simp add: n collapse_ws_def isspace_def)
  have "\<exists>u. s3 = 45 # 32 # u" by (simp add: s3_def c)
  then obtain u where u: "s3 = 45 # 32 # u" by blast
  have "10 \<notin> set s3" using collapse_ws_no_nl [of "nfkc U s"] by (auto simp add: s3_def)
  with u have a: "prefix s3 (45 # 32 # u)" "10 \<notin> set s3" by simp_all
  from trim_dashed [OF a, of "[34, 39, 183, 8226, 42, 8226]"]
  have b: "prefix (strip (sub_trailing [34, 39, 183, 8226, 42, 8226] s3)) (45 # 32 # u)"
    "10 \<notin> set (strip (sub_trailing [34, 39, 183, 8226, 42, 8226] s3))" by simp_all
  from trim_dashed [OF b, of "[12289, 44, 8230]"]
  have "prefix (tidy U s) (45 # 32 # u)" by (simp add: tidy_def Let_def s3_def)
  then show ?thesis by blast
qed

lemma slice_to_prefix: "prefix (slice_to n s) s"
  by (simp add: slice_to_def take_is_prefix)

lemma cut_prefix: "prefix (cut m s) s"
  using rstrip_prefix [of "slice_to m s"] slice_to_prefix [of m s]
  by (auto simp add: cut_def)

lemma cut_length: "0 \<le> m \<Longrightarrow> length (cut m s) \<le> nat m"
proof -
  assume m: "0 \<le> m"
  have "length (rstrip (slice_to m s)) \<le> length (slice_to m s)"
    using rstrip_prefix by (rule prefix_length_le)
  also have "\<dots> \<le> nat m" using m by (simp add: slice_to_def)
  finally show ?thesis using m by (auto simp add: cut_def)
qed

lemma fix_prefix_dash: "startswith (fix_prefix s) [45, 32]"
  by (simp add: fix_prefix_def Let_def)

section \<open>What the admission test rejects\<close>

lemma unit_alts_no_boundary:
  "word_opt U prev = word_opt U (next_char s) \<Longrightarrow>
   re_match_alts U (map (\<lambda>w. WordB # map Lit w @ [WordB]) ws) prev s = None"
  by (induction ws) simp_all

lemma not_admitted_empty: "\<not> admitted U []"
  by (simp add: admitted_def re_search_def UNIT_RX_def unit_alts_no_boundary word_opt_def
      next_char_def)

lemma not_admitted_dash: "\<not> admitted U [45]"
  by (simp add: admitted_def re_search_def UNIT_RX_def unit_alts_no_boundary word_opt_def
      next_char_def is_word_def is_ascii_def is_digit_def is_hangul_def)

lemma clean_item_props:
  assumes "clean_item U m raw = Some s"
  shows "admitted U s"
    and "0 \<le> m \<Longrightarrow> length s \<le> nat m"
    and "\<forall>t. startswith (nfkc U (45 # 32 # t)) [45, 32] \<Longrightarrow> startswith s [45, 32]"
proof -
  define x where "x = fix_prefix (strip raw)"
  have s: "s = cut m (tidy U x)" and adm: "admitted U s"
    using assms by (auto simp add: clean_item_def Let_def x_def split: if_splits)
  show "admitted U s" by (rule adm)
  show "length s \<le> nat m" if "0 \<le> m" using that by (simp add: s cut_length)
  show "startswith s [45, 32]" if h: "\<forall>t. startswith (nfkc U (45 # 32 # t)) [45, 32]"
  proof -
    obtain t where "x = 45 # 32 # t"
      using fix_prefix_dash [of "strip raw"] by (auto simp add: startswith_dash x_def)
    then have "startswith (nfkc U x) [45, 32]" using h by simp
    then obtain u where "prefix (tidy U x) (45 # 32 # u)" using tidy_dashed by blast
    then have "prefix s (45 # 32 # u)"
      using cut_prefix [of m "tidy U x"] by (simp add: s)
    then have "s = [] \<or> s = [45] \<or> startswith s [45, 32]" by (rule dashed_cases)
    then show ?thesis using adm not_admitted_empty not_admitted_dash by auto
  qed
qed

lemma slice_to_set: "set (slice_to n xs) \<subseteq> set xs"
  using slice_to_prefix [of n xs] by (rule set_mono_prefix)

lemma slice_to_distinct_map: "distinct (map f xs) \<Longrightarrow> distinct (map f (slice_to n xs))"
  by (simp add: slice_to_def take_map [symmetric])

text \<open>
  Claim C2.  Every returned feature starts with \<open>- \<close>, has at most 64 characters and
  contains a digit, a unit token or a Hangul syllable, and no two returned features are
  equal after \<open>lower\<close>.  The hypothesis is a fact of NFKC: a string that starts with
  \<open>- \<close> still does after normalization.
\<close>

theorem features_are_feature_bullets:
  assumes "\<forall>t. startswith (nfkc U (45 # 32 # t)) [45, 32]"
  shows "(\<forall>s \<in> set (r_feats (rules_build_fields U pdf text desc_max summary_max limit)).
            startswith s [45, 32] \<and> length s \<le> 64 \<and>
            (list_ex (is_digit U) s \<or> re_search U UNIT_RX s \<noteq> None \<or> list_ex is_hangul s)) \<and>
         distinct (map (lower U) (r_feats (rules_build_fields U pdf text desc_max summary_max limit)))"
proof (intro conjI ballI)
  fix s
  assume "s \<in> set (r_feats (rules_build_fields U pdf text desc_max summary_max limit))"
  then have "s \<in> set (normalize_korean_bullets U (assemble U text limit) 64)"
    using slice_to_set [of limit "normalize_korean_bullets U (assemble U text limit) 64"]
    by (auto simp add: rules_build_fields_def)
  then obtain raw where c: "clean_item U 64 raw = Some s" using normalize_set by blast
  show "startswith s [45, 32]" using clean_item_props(3) [OF c] assms by blast
  show "length s \<le> 64" using clean_item_props(2) [OF c] by simp
  show "list_ex (is_digit U) s \<or> re_search U UNIT_RX s \<noteq> None \<or> list_ex is_hangul s"
    using clean_item_props(1) [OF c] by (auto simp add: admitted_def)
next
  show "distinct (map (lower U) (r_feats (rules_build_fields U pdf text desc_max summary_max limit)))"
    by (simp add: rules_build_fields_def slice_to_distinct_map normalize_distinct)
qed

section \<open>Running the pipeline on concrete texts\<close>

lemmas run_defs =
  asc_def isspace_def lstrip_def rstrip_def strip_def lstrip_chars_def rstrip_chars_def
  strip_chars_def contains_def slice_to_def is_linebreak_def splitlines_def
  is_ascii_def ascii_lower_def nfkc_def lower_def is_digit_def is_word_def ci_eq_def
  in_class_def word_opt_def next_char_def re_search_def MODEL_RX_def UNIT_WORDS_def
  UNIT_RX_def is_hangul_def collapse_ws_def sub_trailing_def fix_prefix_def tidy_def cut_def
  admitted_def clean_item_def normalize_korean_bullets_def PLACEHOLDER_def or_empty_def
  collect_tops_def title_from_spans_def meta_stage_def span_stage_def guess_title_from_pdf_def
  kv_split_def extract_kv_candidates_def BULLET_MARKERS_def extract_bullets_def
  REQUIRED_KEYS_def KEY_ALIASES_def aliases_of_def matches_key_def truncate_def bullet_def
  assemble_def rules_build_fields_def hangul_db_def Let_def

lemma run_cpu_line:
  "r_feats (rules_build_fields hangul_db None (asc ''CPU: 8 cores'') 40 200 24) =
     [asc ''- CPU: 8 cores'']"
  by (simp add: run_defs)

theorem features_are_feature_bullets_witness:
  "r_feats (rules_build_fields hangul_db None (asc ''CPU: 8 cores'') 40 200 24) =
     [asc ''- CPU: 8 cores''] \<and>
   startswith (asc ''- CPU: 8 cores'') [45, 32] \<and>
   length (asc ''- CPU: 8 cores'') \<le> 64 \<and>
   list_ex (is_digit hangul_db) (asc ''- CPU: 8 cores'')"
proof -
  have h: "\<forall>t. startswith (nfkc hangul_db (45 # 32 # t)) [45, 32]"
    by (simp add: nfkc_def hangul_db_def)
  have "\<forall>s \<in> set [asc ''- CPU: 8 cores'']. startswith s [45, 32] \<and> length s \<le> 64"
    using features_are_feature_bullets [OF h, of None "asc ''CPU: 8 cores''" 40 200 24]
    by (simp add: run_cpu_line)
  then show ?thesis by (simp add: run_cpu_line) (simp add: run_defs)
qed

text \<open>
  Claim C7 is not what the code does.  An item that starts with a hyphen passes the
  test \<open>s.startswith(("-", "\<bullet>", "*"))\<close>, but \<open>lstrip\<close> is then called with the bullet,
  the asterisk and the space only, so a leading run of hyphens stays and, unless the
  item already starts with \<open>- \<close>, another \<open>- \<close> is put in front of it.
\<close>

theorem hyphen_run_is_kept:
  "fix_prefix (asc ''--foo'') = asc ''- --foo'' \<and>
   fix_prefix (asc ''-foo'') = asc ''- -foo'' \<and>
   normalize_korean_bullets hangul_db [asc ''--8GB''] 64 = [asc ''- --8GB'']"
  by (simp add: run_defs)

section \<open>Blank texts\<close>

lemma lstrip_blank: "\<forall>c \<in> set s. isspace c \<Longrightarrow> lstrip s = []"
  by (simp add: lstrip_def)

lemma strip_blank: "\<forall>c \<in> set s. isspace c \<Longrightarrow> strip s = []"
  by (simp add: strip_def lstrip_blank rstrip_def)

lemma splitlines_from_chars:
  "line \<in> set (splitlines_from cur s) \<Longrightarrow> set line \<subseteq> set cur \<union> set s"
proof (induction cur s rule: splitlines_from.induct)
  case (1 cur)
  then show ?case by (auto split: if_splits)
next
  case (2 cur c)
  then show ?case by (auto split: if_splits)
next
  case (3 cur c d cs)
  then show ?case by (auto split: if_splits)
qed

lemma splitlines_blank:
  assumes "\<forall>c \<in> set s. isspace c" and "line \<in> set (splitlines s)"
  shows "strip line = []"
proof -
  have "set line \<subseteq> set s" using splitlines_from_chars [of line "[]" s] assms(2)
    by (simp add: splitlines_def)
  then show ?thesis using assms(1) by (intro strip_blank) auto
qed

lemma kv_loop_blank: "\<forall>line \<in> set lines. strip line = [] \<Longrightarrow> kv_loop m lines out = out"
  by (induction lines) simp_all

lemma bullet_loop_blank: "\<forall>line \<in> set lines. strip line = [] \<Longrightarrow> bullet_loop m lines feats = feats"
  by (induction lines) simp_all

lemma first_line_blank: "\<forall>line \<in> set lines. strip line = [] \<Longrightarrow> first_line lines = None"
  by (induction lines) simp_all

lemma model_rx_no_boundary:
  "word_opt U prev = word_opt U (next_char s) \<Longrightarrow> re_match_alts U MODEL_RX prev s = None"
  by (simp add: MODEL_RX_def)

lemma model_search_blank:
  assumes "\<forall>c. isspace c \<longrightarrow> \<not> is_word U c"
  shows "\<forall>c \<in> set s. isspace c \<Longrightarrow> \<not> word_opt U prev \<Longrightarrow> re_search_from U MODEL_RX prev s = None"
proof (induction s arbitrary: prev)
  case Nil
  then show ?case by (simp add: model_rx_no_boundary word_opt_def next_char_def)
next
  case (Cons c cs)
  have w: "\<not> is_word U c" using Cons.prems(1) assms by simp
  then have "re_match_alts U MODEL_RX prev (c # cs) = None"
    using Cons.prems(2) by (intro model_rx_no_boundary) (simp add: word_opt_def next_char_def)
  moreover have "re_search_from U MODEL_RX (Some c) cs = None"
    using Cons.prems(1) w by (intro Cons.IH) (simp_all add: word_opt_def)
  ultimately show ?case by simp
qed

lemma category_pass_empty:
  "category_pass U limit [] keys [] used = Return [] \<or>
   category_pass U limit [] keys [] used = Next ([], used)"
  by (induction keys) auto

lemma assemble_blank:
  assumes "\<forall>c \<in> set text. isspace c"
  shows "assemble U text limit = []"
proof -
  have l: "\<forall>line \<in> set (splitlines text). strip line = []"
    using assms splitlines_blank by blast
  have kv: "extract_kv_candidates text 500 = []"
    by (simp add: extract_kv_candidates_def kv_loop_blank [OF l])
  have bl: "extract_bullets text 300 = []"
    by (simp add: extract_bullets_def bullet_loop_blank [OF l])
  show ?thesis
    using category_pass_empty [of U limit REQUIRED_KEYS "{}"]
    by (auto simp add: assemble_def kv bl)
qed

text \<open>
  Claim C8.  For an empty or whitespace-only text, when neither the metadata nor the
  spans give a title, the result is the placeholder name, an empty description, an
  empty summary and no features.  The model has no error value on this path: every
  \<open>except\<close> of the resolver is the value \<open>None\<close> of a stage.  The last hypothesis is a
  fact of the Unicode tables: no whitespace character is a word character.
\<close>

theorem blank_text_gives_placeholder:
  assumes "\<forall>c \<in> set text. isspace c"
    and "meta_stage U pdf = None" and "span_stage U pdf = None"
    and "\<forall>c. isspace c \<longrightarrow> \<not> is_word U c"
  shows "rules_build_fields U pdf text desc_max summary_max limit =
           \<lparr>r_name = PLACEHOLDER, r_desc = [], r_summary = [], r_feats = []\<rparr>"
proof -
  have l: "\<forall>line \<in> set (splitlines text). strip line = []"
    using assms(1) splitlines_blank by blast
  have "re_search U MODEL_RX text = None"
    using model_search_blank [OF assms(4) assms(1), of None]
    by (simp add: re_search_def word_opt_def)
  then have n: "guess_title_from_pdf U pdf text = PLACEHOLDER"
    by (simp add: guess_title_from_pdf_def assms(2,3) first_line_blank [OF l])
  have t: "\<And>n. truncate text n = []"
    by (simp add: truncate_take strip_blank [OF assms(1)])
  have f: "slice_to limit (normalize_korean_bullets U (assemble U text limit) 64) = []"
    by (simp add: assemble_blank [OF assms(1)] normalize_korean_bullets_def slice_to_def)
  show ?thesis by (simp add: rules_build_fields_def n t f)
qed

theorem blank_text_gives_placeholder_witness:
  "rules_build_fields hangul_db
     (Some \<lparr>meta_title = None, meta_subject = Some [32], page_spans = Some [[(7, asc ''ABC'')]]\<rparr>)
     [32, 10, 9, 12288] 40 200 24 =
   \<lparr>r_name = PLACEHOLDER, r_desc = [], r_summary = [], r_feats = []\<rparr>"
proof -
  have a: "\<forall>c \<in> set [32, 10, 9, 12288]. isspace c" by (simp add: isspace_def)
  have b: "meta_stage hangul_db
      (Some \<lparr>meta_title = None, meta_subject = Some [32], page_spans = Some [[(7, asc ''ABC'')]]\<rparr>) = None"
    by (simp add: run_defs)
  have c: "span_stage hangul_db
      (Some \<lparr>meta_title = None, meta_subject = Some [32], page_spans = Some [[(7, asc ''ABC'')]]\<rparr>) = None"
    by (simp add: run_defs)
  have d: "\<forall>c. isspace c \<longrightarrow> \<not> is_word hangul_db c"
    by (auto simp add: isspace_def is_word_def is_ascii_def hangul_db_def is_hangul_def)
  show ?thesis by (rule blank_text_gives_placeholder [OF a b c d])
qed

lemma replicate_numeral_unfold: "replicate (numeral k) x = x # replicate (pred_numeral k) x"
  by (simp add: numeral_eq_Suc)

text \<open>
  Claim C5 is not what the code does on the span path.  A match of the model pattern in
  a span is returned whole, without the cut to 80 characters that the other paths make:
  a PDF whose largest span is a token of 101 letters gets that token as its name.
\<close>

theorem span_title_longer_than_100:
  "guess_title_from_pdf hangul_db
     (Some \<lparr>meta_title = None, meta_subject = None, page_spans = Some [[(12, replicate 101 65)]]\<rparr>)
     [] = replicate 101 65 \<and>
   length (replicate 101 (65::nat)) = 101"
  by (simp add: run_defs replicate_numeral_unfold)

section \<open>The category pass\<close>






section \<open>The generic pass\<close>



section \<open>Harvested keys hold no colon\<close>









section \<open>Counting the unused pairs\<close>




section \<open>The category pass finds the first free match\<close>









lemma picked_bullets_some:
  "picks_from U kv keys taken ps \<Longrightarrow> picked_bullets kv keys ps \<noteq> [] \<Longrightarrow> \<exists>i. Some i \<in> set ps"
  by (induction U kv keys taken ps rule: picks_from.induct) auto







section \<open>The three texts, run\<close>



























section \<open>Fixed points of the clean-up\<close>

lemma prefix_hd: "prefix p t \<Longrightarrow> p \<noteq> [] \<Longrightarrow> hd p = hd t"
  by (auto simp add: prefix_def)

lemma lstrip_head: "lstrip s \<noteq> [] \<Longrightarrow> \<not> isspace (hd (lstrip s))"
  unfolding lstrip_def by (rule hd_dropWhile)

lemma rstrip_last: "rstrip s \<noteq> [] \<Longrightarrow> \<not> isspace (last (rstrip s))"
proof -
  assume a: "rstrip s \<noteq> []"
  then have n: "dropWhile isspace (rev s) \<noteq> []" by (simp add: rstrip_def)
  then have "\<not> isspace (hd (dropWhile isspace (rev s)))" by (rule hd_dropWhile)
  then show ?thesis using n by (simp add: rstrip_def last_rev)
qed

lemma rstrip_keeps_head:
  assumes "s = [] \<or> \<not> isspace (hd s)"
  shows "rstrip s = [] \<or> (\<not> isspace (hd (rstrip s)) \<and> \<not> isspace (last (rstrip s)))"
proof (cases "rstrip s = []")
  case True
  then show ?thesis by simp
next
  case False
  then have "hd (rstrip s) = hd s" using rstrip_prefix [of s] by (rule prefix_hd [rotated])
  moreover have "s \<noteq> []" using False by (auto simp add: rstrip_def)
  ultimately show ?thesis using assms rstrip_last [OF False] by simp
qed

lemma strip_ends: "strip s = [] \<or> (\<not> isspace (hd (strip s)) \<and> \<not> isspace (last (strip s)))"
proof -
  have "lstrip s = [] \<or> \<not> isspace (hd (lstrip s))" using lstrip_head by blast
  then show ?thesis unfolding strip_def by (rule rstrip_keeps_head)
qed

lemma cut_ends:
  assumes "s = [] \<or> (\<not> isspace (hd s) \<and> \<not> isspace (last s))"
  shows "cut m s = [] \<or> (\<not> isspace (hd (cut m s)) \<and> \<not> isspace (last (cut m s)))"
proof (cases "m < int (length s)")
  case False
  then show ?thesis using assms by (simp add: cut_def)
next
  case True
  have "slice_to m s = [] \<or> \<not> isspace (hd (slice_to m s))"
  proof (cases "slice_to m s = []")
    case True
    then show ?thesis by simp
  next
    case False
    have "hd (slice_to m s) = hd s" using slice_to_prefix False by (rule prefix_hd)
    moreover have "s \<noteq> []" using False by (auto simp add: slice_to_def)
    ultimately show ?thesis using assms by simp
  qed
  then have "rstrip (slice_to m s) = [] \<or>
      (\<not> isspace (hd (rstrip (slice_to m s))) \<and> \<not> isspace (last (rstrip (slice_to m s))))"
    by (rule rstrip_keeps_head)
  then show ?thesis using True by (simp add: cut_def)
qed

lemma set_sub_trailing: "set (sub_trailing cs s) \<subseteq> set s"
proof (cases "s \<noteq> [] \<and> last s = 10")
  case True
  have "set (rstrip_chars cs (butlast s)) \<subseteq> set s"
    using set_rstrip_chars [of cs "butlast s"] by (auto dest: in_set_butlastD)
  moreover have "10 \<in> set s" using True last_in_set [of s] by auto
  ultimately show ?thesis using True by (simp add: sub_trailing_def)
next
  case False
  then have "sub_trailing cs s = rstrip_chars cs s" unfolding sub_trailing_def by (rule if_not_P)
  then show ?thesis using set_rstrip_chars [of cs s] by simp
qed

lemma set_cut: "set (cut m s) \<subseteq> set s"
  using cut_prefix [of m s] by (rule set_mono_prefix)

lemma tidy_chars:
  "c \<in> set (tidy U s) \<Longrightarrow> (isspace c \<longrightarrow> c = 32) \<and> c \<noteq> 8226 \<and> c \<noteq> 8211 \<and> c \<noteq> 8212"
proof -
  define s2 where "s2 = collapse_ws (nfkc U s)"
  define s3 where "s3 = map (\<lambda>c. if c = 8211 \<or> c = 8212 then 45 else c) (filter (\<lambda>c. c \<noteq> 8226) s2)"
  assume "c \<in> set (tidy U s)"
  then have "c \<in> set s3"
    using set_strip set_sub_trailing unfolding tidy_def Let_def s3_def s2_def by blast
  then obtain c0 where c0: "c0 \<in> set s2" "c0 \<noteq> 8226" "c = (if c0 = 8211 \<or> c0 = 8212 then 45 else c0)"
    by (auto simp add: s3_def)
  have "isspace c0 \<longrightarrow> c0 = 32"
    using c0(1) collapse_from_set [of False "nfkc U s"] by (auto simp add: s2_def collapse_ws_def)
  then show ?thesis using c0(2,3) by (auto simp add: isspace_def)
qed

lemma tidy_ends: "tidy U s = [] \<or> (\<not> isspace (hd (tidy U s)) \<and> \<not> isspace (last (tidy U s)))"
  unfolding tidy_def Let_def by (rule strip_ends)

text \<open>A string with no whitespace but single spaces is left alone by the collapse.\<close>

lemma collapse_from_id:
  "\<forall>c \<in> set s. isspace c \<longrightarrow> c = 32 \<Longrightarrow> \<not> has_double_space s \<Longrightarrow>
   (b \<longrightarrow> s = [] \<or> hd s \<noteq> 32) \<Longrightarrow> collapse_from b s = s"
proof (induction s arbitrary: b rule: has_double_space.induct)
  case 1
  then show ?case by simp
next
  case (2 c)
  then show ?case by auto
next
  case (3 c d cs)
  have "collapse_from (isspace c) (d # cs) = d # cs"
  proof (rule "3.IH")
    show "\<forall>c \<in> set (d # cs). isspace c \<longrightarrow> c = 32" using "3.prems"(1) by simp
    show "\<not> has_double_space (d # cs)" using "3.prems"(2) by simp
    show "isspace c \<longrightarrow> d # cs = [] \<or> hd (d # cs) \<noteq> 32"
      using "3.prems"(1,2) by auto
  qed
  then show ?case using "3.prems"(1,3) by auto
qed

lemma rstrip_chars_id: "s \<noteq> [] \<Longrightarrow> last s \<notin> set cs \<Longrightarrow> rstrip_chars cs s = s"
proof -
  assume a: "s \<noteq> []" "last s \<notin> set cs"
  obtain ys y where s: "s = ys @ [y]" using a(1) by (cases s rule: rev_cases) auto
  have "y \<notin> set cs" using a(2) by (simp add: s)
  then have "dropWhile (\<lambda>c. c \<in> set cs) (y # rev ys) = y # rev ys" by simp
  then show ?thesis by (simp add: rstrip_chars_def s)
qed

lemma clean_item_shape:
  assumes "clean_item U m raw = Some s"
  shows "\<forall>c \<in> set s. (isspace c \<longrightarrow> c = 32) \<and> c \<noteq> 8226 \<and> c \<noteq> 8211 \<and> c \<noteq> 8212"
    and "s \<noteq> []" and "\<not> isspace (hd s)" and "\<not> isspace (last s)"
proof -
  define x where "x = fix_prefix (strip raw)"
  have s: "s = cut m (tidy U x)" and adm: "admitted U s"
    using assms by (auto simp add: clean_item_def Let_def x_def split: if_splits)
  show "\<forall>c \<in> set s. (isspace c \<longrightarrow> c = 32) \<and> c \<noteq> 8226 \<and> c \<noteq> 8211 \<and> c \<noteq> 8212"
    using set_cut [of m "tidy U x"] tidy_chars [of _ U x] unfolding s by blast
  show ne: "s \<noteq> []" using adm not_admitted_empty by auto
  have "s = [] \<or> (\<not> isspace (hd s) \<and> \<not> isspace (last s))"
    unfolding s using tidy_ends by (rule cut_ends)
  then show "\<not> isspace (hd s)" and "\<not> isspace (last s)" using ne by simp_all
qed

lemma tidy_fixed:
  assumes chars: "\<forall>c \<in> set s. (isspace c \<longrightarrow> c = 32) \<and> c \<noteq> 8226 \<and> c \<noteq> 8211 \<and> c \<noteq> 8212"
    and ne: "s \<noteq> []" and h: "\<not> isspace (hd s)" and l: "\<not> isspace (last s)"
    and n: "nfkc U s = s" and ds: "\<not> has_double_space s" and t: "last s \<notin> set TRIMMED"
  shows "tidy U s = s"
proof -
  have sp: "\<forall>c \<in> set s. isspace c \<longrightarrow> c = 32" using chars by blast
  have c: "collapse_from False s = s" using sp ds by (rule collapse_from_id) simp
  have "\<forall>c \<in> set s. c \<noteq> 8226" using chars by blast
  then have f: "filter (\<lambda>c. c \<noteq> 8226) s = s" by (simp add: filter_id_conv)
  have "\<forall>c \<in> set s. c \<noteq> 8211 \<and> c \<noteq> 8212" using chars by blast
  then have m: "map (\<lambda>c. if c = 8211 \<or> c = 8212 then 45 else c) s = s"
    by (intro map_idI) simp
  have "isspace 10" by (simp add: isspace_def)
  then have "10 \<notin> set s" using sp by fastforce
  then have st: "sub_trailing [34, 39, 183, 8226, 42, 8226] s = rstrip_chars [34, 39, 183, 8226, 42, 8226] s"
    "sub_trailing [12289, 44, 8230] s = rstrip_chars [12289, 44, 8230] s"
    by (rule sub_trailing_no_nl)+
  have "last s \<notin> set [34, 39, 183, 8226, 42, 8226]" using t by (simp add: TRIMMED_def)
  with ne have a: "rstrip_chars [34, 39, 183, 8226, 42, 8226] s = s" by (rule rstrip_chars_id)
  have "last s \<notin> set [12289, 44, 8230]" using t by (simp add: TRIMMED_def)
  with ne have b: "rstrip_chars [12289, 44, 8230] s = s" by (rule rstrip_chars_id)
  have sid: "strip s = s" using ne h l by (rule strip_id)
  show ?thesis
    unfolding tidy_def Let_def collapse_ws_def n c f m st(1) a sid st(2) b ..
qed

lemma fix_prefix_fixed:
  assumes "startswith s [45, 32]" and "strip s = s"
  shows "fix_prefix s = s"
proof -
  obtain t where s: "s = 45 # 32 # t" using assms(1) by (auto simp add: startswith_dash)
  have "lstrip_chars [8226, 42, 32] s = s" by (simp add: s lstrip_chars_def)
  then show ?thesis using assms by (simp add: fix_prefix_def Let_def s)
qed

lemma clean_item_fixed:
  assumes c: "clean_item U m raw = Some s" and m: "0 \<le> m"
    and p: "startswith s [45, 32]" and n: "nfkc U s = s"
    and ds: "\<not> has_double_space s" and t: "last s \<notin> set TRIMMED"
  shows "clean_item U m s = Some s"
proof -
  note sh = clean_item_shape [OF c]
  have sid: "strip s = s" using sh(2,3,4) by (rule strip_id)
  have fp: "fix_prefix s = s" using p sid by (rule fix_prefix_fixed)
  have td: "tidy U s = s" using sh n ds t by (rule tidy_fixed)
  have "length s \<le> nat m" using clean_item_props(2) [OF c m] .
  then have "\<not> m < int (length s)" using m by linarith
  then have ct: "cut m s = s" unfolding cut_def by (rule if_not_P)
  have "admitted U s" using clean_item_props(1) [OF c] .
  then show ?thesis using sh(2) by (simp add: clean_item_def Let_def sid fp td ct)
qed

lemma normalize_loop_fixed:
  "\<forall>y \<in> set ys. clean_item U m y = Some y \<Longrightarrow> distinct (map (lower U) ys) \<Longrightarrow>
   lower U ` set ys \<inter> seen = {} \<Longrightarrow> normalize_loop U m ys out seen = out @ ys"
proof (induction ys arbitrary: out seen)
  case Nil
  then show ?case by simp
next
  case (Cons y ys)
  have c: "clean_item U m y = Some y" using Cons.prems(1) by simp
  have k: "lower U y \<notin> seen" using Cons.prems(3) by auto
  have "normalize_loop U m ys (out @ [y]) (insert (lower U y) seen) = (out @ [y]) @ ys"
    using Cons.prems by (intro Cons.IH) auto
  then show ?case using c k by simp
qed

text \<open>
  When a second pass changes nothing: for a non-negative \<open>max_len\<close>, normalizing a
  normalized list returns it unchanged if each of its bullets is in NFKC form, has no
  two adjacent spaces and does not end in a character that the trailing trims remove.
\<close>

lemma renormalize_clean_bullets:
  assumes "0 \<le> max_len"
    and "\<forall>t. startswith (nfkc U (45 # 32 # t)) [45, 32]"
    and "\<forall>s \<in> set (normalize_korean_bullets U xs max_len).
           nfkc U s = s \<and> \<not> has_double_space s \<and> last s \<notin> set TRIMMED"
  shows "normalize_korean_bullets U (normalize_korean_bullets U xs max_len) max_len =
         normalize_korean_bullets U xs max_len"
proof -
  define ys where "ys = normalize_korean_bullets U xs max_len"
  have "clean_item U max_len y = Some y" if y: "y \<in> set ys" for y
  proof -
    obtain raw where c: "clean_item U max_len raw = Some y"
      using y normalize_set unfolding ys_def by blast
    have p: "startswith y [45, 32]" using clean_item_props(3) [OF c assms(2)] .
    have "nfkc U y = y" "\<not> has_double_space y" "last y \<notin> set TRIMMED"
      using assms(3) y unfolding ys_def by simp_all
    with c assms(1) p show ?thesis by (rule clean_item_fixed)
  qed
  moreover have "distinct (map (lower U) ys)" unfolding ys_def by (rule normalize_distinct)
  ultimately have "normalize_loop U max_len ys [] {} = [] @ ys"
    by (intro normalize_loop_fixed) simp_all
  then have "normalize_korean_bullets U ys max_len = ys"
    by (simp add: normalize_korean_bullets_def)
  then show ?thesis unfolding ys_def .
qed

text \<open>
  Claim C4 is not what the code does.  The two trailing trims run once each, the
  quote-like characters before the commas.  The item \<open>- 1*,\<close> loses its comma in the
  first pass and comes out as \<open>- 1*\<close>, still ending in the asterisk that the first trim
  removes at the end of a bullet; the second pass removes it and returns \<open>- 1\<close>.
\<close>

theorem renormalizing_changes_the_list:
  "normalize_korean_bullets hangul_db [asc ''- 1*,''] 64 = [asc ''- 1*''] \<and>
   normalize_korean_bullets hangul_db
     (normalize_korean_bullets hangul_db [asc ''- 1*,''] 64) 64 = [asc ''- 1'']"
  by (simp add: run_defs)

end
